theory Spec2Isabelle
  imports Complex_Main "HOL-Library.Multiset" "HOL-Library.Log_Nat"
begin

section \<open>The render-progress simulator of the video editor\<close>

text \<open>
  The editor component (\<^verbatim>\<open>VideoCreator\<close> in
  \<^verbatim>\<open>frontend/src/components/AnimatedAvatar.jsx\<close>) fakes a progress bar while the
  backend renders: \<^verbatim>\<open>startProgressAnimation\<close> walks the table \<^verbatim>\<open>STAGES\<close> with a chain
  of \<^verbatim>\<open>setTimeout\<close> callbacks, \<^verbatim>\<open>stopProgress\<close> ends it when the backend answers.
  This theory embeds that driver, the \<^verbatim>\<open>render\<close> function around it and the
  drag-reorder of the scene list.
\<close>

subsection \<open>JavaScript numbers\<close>

text \<open>
  A JavaScript number is a binary64 floating-point number: a multiple of a power of two
  with a significand of 53 bits, or one of the special values that a division by zero
  produces. A finite number is modelled as the rational it stands for, and every
  arithmetic operation rounds its exact result to the nearest such number, a tie to the
  one with the even significand. The exponent range is not modelled: overflow and
  gradual underflow need magnitudes beyond \<open>2 ^ 1023\<close> or below \<open>2 ^ (- 1022)\<close>, which
  no clock reading, percentage or duration in milliseconds comes near. Clock readings,
  percentages and durations are integers, and the difference of two of them is taken as
  an integer: binary64 subtracts integers below \<open>2 ^ 53\<close> without rounding.
\<close>

text \<open>The exponent \<open>e\<close> of a positive rational: \<open>2 powi e \<le> x < 2 powi (e + 1)\<close>.\<close>

definition ilog2 :: "rat \<Rightarrow> int" where
  "ilog2 x =
     (case quotient_of x of
        (p, q) \<Rightarrow>
          (let k = bitlen p - bitlen q
           in if 2 powi k \<le> x then k else k - 1))"

definition round_half_even :: "rat \<Rightarrow> int" where
  "round_half_even m =
     (let f = \<lfloor>m\<rfloor>; r = m - of_int f
      in if r < 1 / 2 then f
         else if 1 / 2 < r then f + 1
         else if even f then f else f + 1)"

text \<open>Rounding to binary64.\<close>

definition rnd64 :: "rat \<Rightarrow> rat" where
  "rnd64 x =
     (if x = 0 then 0
      else
        (let a = \<bar>x\<bar>;
             u = 2 powi (ilog2 a - 52)
         in sgn x * (of_int (round_half_even (a / u)) * u)))"

text \<open>
  The number an integer of the program is: itself up to \<open>2 ^ 53\<close>, the nearest binary64
  number beyond.
\<close>

definition double_of_int :: "int \<Rightarrow> rat" where
  "double_of_int k = rnd64 (of_int k)"

datatype jsnum = NaN | NegInf | PosInf | Fin rat

text \<open>\<^verbatim>\<open>a / b\<close> for two integers.\<close>

definition js_div :: "int \<Rightarrow> int \<Rightarrow> jsnum" where
  "js_div a b =
     (if b \<noteq> 0 then Fin (rnd64 (double_of_int a / double_of_int b))
      else if a = 0 then NaN
      else if 0 < a then PosInf else NegInf)"

text \<open>\<^verbatim>\<open>Math.min(x, 1)\<close>.\<close>

fun js_min1 :: "jsnum \<Rightarrow> jsnum" where
  "js_min1 NaN = NaN"
| "js_min1 NegInf = NegInf"
| "js_min1 PosInf = Fin 1"
| "js_min1 (Fin q) = Fin (min q 1)"

text \<open>\<^verbatim>\<open>d * x\<close> for an integer \<open>d\<close>.\<close>

fun js_scale :: "int \<Rightarrow> jsnum \<Rightarrow> jsnum" where
  "js_scale d NaN = NaN"
| "js_scale d PosInf = (if d = 0 then NaN else if 0 < d then PosInf else NegInf)"
| "js_scale d NegInf = (if d = 0 then NaN else if 0 < d then NegInf else PosInf)"
| "js_scale d (Fin q) = Fin (rnd64 (double_of_int d * q))"

text \<open>\<^verbatim>\<open>c + x\<close> for an integer \<open>c\<close>.\<close>

fun js_add :: "int \<Rightarrow> jsnum \<Rightarrow> jsnum" where
  "js_add c (Fin q) = Fin (rnd64 (double_of_int c + q))"
| "js_add c x = x"

text \<open>
  \<^verbatim>\<open>Math.round(x)\<close>: the nearest integer, a half rounded up; the result is exact.
\<close>

fun js_round :: "jsnum \<Rightarrow> jsnum" where
  "js_round (Fin q) = Fin (of_int \<lfloor>q + 1 / 2\<rfloor>)"
| "js_round x = x"

text \<open>\<^verbatim>\<open>x < 1\<close> and \<^verbatim>\<open>x <= y\<close>: every comparison with \<^verbatim>\<open>NaN\<close> is false.\<close>

fun js_lt1 :: "jsnum \<Rightarrow> bool" where
  "js_lt1 NaN = False"
| "js_lt1 NegInf = True"
| "js_lt1 PosInf = False"
| "js_lt1 (Fin q) = (q < 1)"


subsection \<open>The stage table\<close>

record stage_entry =
  pct :: int
  label :: string
  ms :: int

text \<open>The table of \<^verbatim>\<open>AnimatedAvatar.jsx\<close>, lines 332 to 342.\<close>

definition STAGES :: "stage_entry list" where
  "STAGES =
     [\<lparr>pct = 5,  label = ''Initializing...'',           ms = 800\<rparr>,
      \<lparr>pct = 12, label = ''Generating audio (TTS)...'', ms = 3000\<rparr>,
      \<lparr>pct = 20, label = ''Running Wav2Lip...'',        ms = 8000\<rparr>,
      \<lparr>pct = 38, label = ''Animating avatar...'',       ms = 8000\<rparr>,
      \<lparr>pct = 50, label = ''Loading alpha mask...'',     ms = 2000\<rparr>,
      \<lparr>pct = 62, label = ''Compositing frames...'',     ms = 5000\<rparr>,
      \<lparr>pct = 75, label = ''Encoding video...'',         ms = 7000\<rparr>,
      \<lparr>pct = 88, label = ''Encoding audio...'',         ms = 4000\<rparr>,
      \<lparr>pct = 96, label = ''Finalizing...'',             ms = 3000\<rparr>]"

text \<open>
  The older editor (\<^verbatim>\<open>unnamed/part_002\<close>, lines 333 to 340) has a table of its own,
  without durations: a \<^verbatim>\<open>setInterval\<close> steps through it every three seconds.
\<close>

record stg =
  stg_progress :: int
  stg_stage :: string

definition stgs :: "stg list" where
  "stgs =
     [\<lparr>stg_progress = 10, stg_stage = ''Processing scenes...''\<rparr>,
      \<lparr>stg_progress = 25, stg_stage = ''Generating audio...''\<rparr>,
      \<lparr>stg_progress = 40, stg_stage = ''Processing images...''\<rparr>,
      \<lparr>stg_progress = 60, stg_stage = ''Compositing video...''\<rparr>,
      \<lparr>stg_progress = 80, stg_stage = ''Encoding video...''\<rparr>,
      \<lparr>stg_progress = 95, stg_stage = ''Finalizing...''\<rparr>]"

text \<open>
  The invariant of a stage table: it is not empty, the thresholds increase strictly, every
  threshold is a percentage and every duration is positive.
\<close>

definition stage_table_ok :: "stage_entry list \<Rightarrow> bool" where
  "stage_table_ok tbl \<longleftrightarrow>
     tbl \<noteq> [] \<and> sorted_wrt (<) (map pct tbl)
     \<and> list_all (\<lambda>e. 0 \<le> pct e \<and> pct e \<le> 100 \<and> 0 < ms e) tbl"

text \<open>
  Two small tables for running the driver by hand: the two-entry table of the
  specification's example, and a three-entry table that ends at 100.
\<close>

definition table_AB :: "stage_entry list" where
  "table_AB = [\<lparr>pct = 10, label = ''A'', ms = 1000\<rparr>, \<lparr>pct = 100, label = ''B'', ms = 1000\<rparr>]"


subsection \<open>Component state, timers and the clock\<close>

text \<open>
  A pending timeout holds the handle \<^verbatim>\<open>setTimeout\<close> returned, the time it is due and
  its callback. The two callbacks of the driver are closures over the variable
  \<^verbatim>\<open>stageIdx\<close> of their call of \<^verbatim>\<open>startProgressAnimation\<close>; \<^verbatim>\<open>interpolate\<close> closes
  over \<^verbatim>\<open>current\<close>, \<^verbatim>\<open>next\<close> and \<^verbatim>\<open>stageStart\<close> too. Each call of
  \<^verbatim>\<open>startProgressAnimation\<close> has a \<^verbatim>\<open>stageIdx\<close> of its own, and a callback schedules at
  most one successor, so at most one callback of a call is pending and the value of
  \<^verbatim>\<open>stageIdx\<close> travels with it. \<^verbatim>\<open>current\<close> and \<^verbatim>\<open>next\<close> are the entries at
  \<^verbatim>\<open>stageIdx\<close> and \<^verbatim>\<open>stageIdx + 1\<close> for as long as a stage is interpolated.

  There are two clocks. \<open>now\<close> is the wall clock that \<^verbatim>\<open>Date.now()\<close> reads, in
  milliseconds; it can be set, forward or back. \<open>uptime\<close> is the monotonic clock by which
  the browser times its timeouts; it only runs forward.
\<close>

datatype callback = Tick nat | Interpolate nat int

datatype timer = Timer (handle: nat) (due: int) (callback: callback)

record video =
  download :: "string option"
  preview :: string
  filename :: string

record app =
  now :: int
  uptime :: int
  timer_count :: nat
  timers :: "timer list"
  progressTimerRef :: "nat option"
  renderStartRef :: "int option"
  progress :: jsnum
  stage :: string
  loading :: bool
  rendering :: bool
  status :: string
  videoUrl :: "video option"

datatype error = TypeError

text \<open>
  \<^verbatim>\<open>setTimeout\<close> hands out a fresh handle, an integer above zero, and queues the
  callback; \<^verbatim>\<open>clearTimeout\<close> removes the timeout with that handle, if it is pending.
\<close>

definition setTimeout :: "callback \<Rightarrow> int \<Rightarrow> app \<Rightarrow> nat \<times> app" where
  "setTimeout cb delay s =
     (let h = Suc (timer_count s)
      in (h, s\<lparr>timer_count := h, timers := timers s @ [Timer h (uptime s + delay) cb]\<rparr>))"

definition clearTimeout :: "nat \<Rightarrow> app \<Rightarrow> app" where
  "clearTimeout h s = s\<lparr>timers := filter (\<lambda>t. handle t \<noteq> h) (timers s)\<rparr>"

text \<open>\<^verbatim>\<open>STAGES[i]\<close>: \<^verbatim>\<open>undefined\<close> out of range, and reading a field of it throws.\<close>

definition entry :: "stage_entry list \<Rightarrow> nat \<Rightarrow> stage_entry option" where
  "entry tbl i = (if i < length tbl then Some (tbl ! i) else None)"

subsection \<open>The progress driver\<close>

text \<open>
  \<^verbatim>\<open>startProgressAnimation\<close> (lines 344 to 377), with the table as a parameter.
\<close>

definition startProgressAnimation :: "stage_entry list \<Rightarrow> app \<Rightarrow> error + app" where
  "startProgressAnimation tbl s =
     (let s1 = s\<lparr>renderStartRef := Some (now s)\<rparr>;
          s2 = s1\<lparr>progress := Fin 0\<rparr>
      in case entry tbl 0 of
           None \<Rightarrow> Inl TypeError
         | Some first \<Rightarrow>
             (let s3 = s2\<lparr>stage := label first\<rparr>;
                  (h, s4) = setTimeout (Tick 0) 200 s3
              in Inr (s4\<lparr>progressTimerRef := Some h\<rparr>)))"

text \<open>
  One run of the closure \<^verbatim>\<open>interpolate\<close> of stage \<open>stageIdx\<close>, begun at \<open>stageStart\<close>.
\<close>

definition interpolate :: "stage_entry list \<Rightarrow> nat \<Rightarrow> int \<Rightarrow> app \<Rightarrow> error + app" where
  "interpolate tbl stageIdx stageStart s =
     (case (entry tbl stageIdx, entry tbl (stageIdx + 1)) of
        (Some current, Some next) \<Rightarrow>
          (let elapsed = now s - stageStart;
               frac = js_min1 (js_div elapsed (ms current));
               pctv = js_add (pct current) (js_scale (pct next - pct current) frac);
               s1 = s\<lparr>progress := js_round pctv\<rparr>
           in if js_lt1 frac then
                (let (h, s2) = setTimeout (Interpolate stageIdx stageStart) 80 s1
                 in Inr (s2\<lparr>progressTimerRef := Some h\<rparr>))
              else
                (let stageIdx' = stageIdx + 1
                 in if stageIdx' < length tbl then
                      (case entry tbl stageIdx' of
                         None \<Rightarrow> Inl TypeError
                       | Some e \<Rightarrow>
                           (let s2 = s1\<lparr>stage := label e\<rparr>;
                                (h, s3) = setTimeout (Tick stageIdx') 100 s2
                            in Inr (s3\<lparr>progressTimerRef := Some h\<rparr>)))
                    else Inr s1))
      | _ \<Rightarrow> Inl TypeError)"

text \<open>The closure \<^verbatim>\<open>tick\<close>: it returns at the last entry, else starts the next stage.\<close>

definition tick :: "stage_entry list \<Rightarrow> nat \<Rightarrow> app \<Rightarrow> error + app" where
  "tick tbl stageIdx s =
     (if int (length tbl) - 1 \<le> int stageIdx then Inr s
      else interpolate tbl stageIdx (now s) s)"

text \<open>
  The completion label \<^verbatim>\<open>'Complete! '\<close> followed by the check mark U+2705, as the bytes
  of its UTF-8 encoding.
\<close>

definition complete_label :: string where
  "complete_label = ''Complete! '' @ [CHR 0xE2, CHR 0x9C, CHR 0x85]"

text \<open>
  \<^verbatim>\<open>stopProgress\<close> (lines 379 to 388). The handle in the ref is cleared when it is
  truthy: not \<^verbatim>\<open>null\<close> and not zero.
\<close>

definition stopProgress :: "bool \<Rightarrow> app \<Rightarrow> app" where
  "stopProgress success s =
     (let s1 = (case progressTimerRef s of
                  None \<Rightarrow> s
                | Some h \<Rightarrow> if h \<noteq> 0 then clearTimeout h s else s)
      in if success then s1\<lparr>progress := Fin 100, stage := complete_label\<rparr>
         else s1\<lparr>progress := Fin 0, stage := ''''\<rparr>)"

subsection \<open>The event loop\<close>

text \<open>
  The browser runs a pending callback at or after its due time on the monotonic clock.
  \<open>fire\<close> runs the timeout with the given handle if it is pending and due, and does
  nothing otherwise. When time passes both clocks advance. A schedule is any list of
  such advances and firings: in a schedule the wall clock is never set.
\<close>

definition run_callback :: "stage_entry list \<Rightarrow> callback \<Rightarrow> app \<Rightarrow> error + app" where
  "run_callback tbl cb s =
     (case cb of Tick i \<Rightarrow> tick tbl i s | Interpolate i t0 \<Rightarrow> interpolate tbl i t0 s)"

definition fire :: "stage_entry list \<Rightarrow> nat \<Rightarrow> app \<Rightarrow> error + app" where
  "fire tbl h s =
     (case find (\<lambda>t. handle t = h) (timers s) of
        None \<Rightarrow> Inr s
      | Some t \<Rightarrow>
          if due t \<le> uptime s
          then run_callback tbl (callback t) (s\<lparr>timers := filter (\<lambda>t. handle t \<noteq> h) (timers s)\<rparr>)
          else Inr s)"

datatype event = Advance nat | Fire nat

definition step :: "stage_entry list \<Rightarrow> event \<Rightarrow> app \<Rightarrow> error + app" where
  "step tbl e s =
     (case e of
        Advance d \<Rightarrow> Inr (s\<lparr>now := now s + int d, uptime := uptime s + int d\<rparr>)
      | Fire h \<Rightarrow> fire tbl h s)"

text \<open>
  \<open>run\<close> plays a schedule and returns every state it passes through, the first one
  included; it stops at the first exception.
\<close>

fun run :: "stage_entry list \<Rightarrow> event list \<Rightarrow> app \<Rightarrow> error + app list" where
  "run tbl [] s = Inr [s]"
| "run tbl (e # es) s =
     (case step tbl e s of
        Inl x \<Rightarrow> Inl x
      | Inr s' \<Rightarrow> (case run tbl es s' of Inl x \<Rightarrow> Inl x | Inr ss \<Rightarrow> Inr (s # ss)))"




text \<open>The state a fresh component starts in.\<close>

definition init :: app where
  "init = \<lparr>now = 0, uptime = 0, timer_count = 0, timers = [], progressTimerRef = None,
           renderStartRef = None, progress = Fin 0, stage = '''', loading = False,
           rendering = False, status = '''', videoUrl = None\<rparr>"

text \<open>
  With fake timers a test advances the clocks and every callback runs exactly when it is
  due, the one due first before the others and the one queued first among equals.
  \<open>run_until\<close> plays the pending timeouts up to the time \<open>t\<close> of the monotonic clock;
  the fuel bounds the number of callbacks it runs, and \<open>None\<close> means that it ran out.
\<close>

fun earliest :: "timer list \<Rightarrow> timer option" where
  "earliest [] = None"
| "earliest (t # ts) =
     (case earliest ts of
        None \<Rightarrow> Some t
      | Some u \<Rightarrow> if due u < due t then Some u else Some t)"

text \<open>Time passes until the monotonic clock reads \<open>t\<close>, if it does not yet.\<close>

definition pass_until :: "int \<Rightarrow> app \<Rightarrow> app" where
  "pass_until t s =
     (if uptime s < t then s\<lparr>now := now s + (t - uptime s), uptime := t\<rparr> else s)"

fun run_until :: "nat \<Rightarrow> stage_entry list \<Rightarrow> int \<Rightarrow> app \<Rightarrow> (error + app) option" where
  "run_until 0 tbl t s = None"
| "run_until (Suc fuel) tbl t s =
     (case earliest (timers s) of
        None \<Rightarrow> Some (Inr (pass_until t s))
      | Some u \<Rightarrow>
          if t < due u then Some (Inr (pass_until t s))
          else
            (case fire tbl (handle u) (pass_until (due u) s) of
               Inl x \<Rightarrow> Some (Inl x)
             | Inr s' \<Rightarrow> run_until fuel tbl t s'))"

text \<open>What the display shows, and which callbacks are pending.\<close>

definition view :: "app \<Rightarrow> jsnum \<times> string \<times> callback list" where
  "view s = (progress s, stage s, map callback (timers s))"


text \<open>
  \<open>timeline tbl ts\<close>: the same, with the clock advanced to each of the times \<open>ts\<close> in
  turn and the display read at each.
\<close>

fun run_through ::
  "nat \<Rightarrow> stage_entry list \<Rightarrow> int list \<Rightarrow> app \<Rightarrow> (error + (jsnum \<times> string \<times> callback list) list) option"
where
  "run_through fuel tbl [] s = Some (Inr [])"
| "run_through fuel tbl (t # ts) s =
     (case run_until fuel tbl t s of
        None \<Rightarrow> None
      | Some (Inl x) \<Rightarrow> Some (Inl x)
      | Some (Inr s') \<Rightarrow>
          (case run_through fuel tbl ts s' of
             None \<Rightarrow> None
           | Some (Inl x) \<Rightarrow> Some (Inl x)
           | Some (Inr vs) \<Rightarrow> Some (Inr (view s' # vs))))"

definition timeline :: "stage_entry list \<Rightarrow> int list \<Rightarrow> (jsnum \<times> string \<times> callback list) list option" where
  "timeline tbl ts =
     (case startProgressAnimation tbl init of
        Inl x \<Rightarrow> None
      | Inr s \<Rightarrow>
          (case run_through 1000 tbl ts s of
             Some (Inr vs) \<Rightarrow> Some vs
           | _ \<Rightarrow> None))"



subsection \<open>The render function\<close>

text \<open>
  \<^verbatim>\<open>render\<close> (lines 587 to 630) is asynchronous: \<open>render_begin\<close> is its part up to the
  \<^verbatim>\<open>await\<close> of the request, \<open>render_settle\<close> the part that runs when the request has
  settled, the \<^verbatim>\<open>finally\<close> block included. The answer is either the decoded response
  or an exception (a network error, a body that is not JSON, a null body). The emoji of
  the status texts are written as their UTF-8 bytes.
\<close>

record render_data =
  data_filename :: "string option"
  data_download_url :: "string option"
  data_error :: "string option"

datatype outcome = Responded render_data | Threw string

text \<open>Truthiness of a string that may be \<^verbatim>\<open>undefined\<close>: defined and not empty.\<close>

definition truthy :: "string option \<Rightarrow> bool" where
  "truthy v = (case v of None \<Rightarrow> False | Some x \<Rightarrow> x \<noteq> '''')"

definition render_begin :: "stage_entry list \<Rightarrow> nat \<Rightarrow> app \<Rightarrow> error + app" where
  "render_begin tbl scenes_length s =
     (if scenes_length = 0
      then Inr (s\<lparr>status := [CHR 0xE2, CHR 0x9D, CHR 0x8C] @ '' Add scenes first''\<rparr>)
      else
        startProgressAnimation tbl
          (s\<lparr>loading := True, rendering := True, videoUrl := None,
             status := [CHR 0xF0, CHR 0x9F, CHR 0x8E, CHR 0xAC] @ '' Rendering...''\<rparr>))"

text \<open>The status \<^verbatim>\<open>`... Failed: ${data.error || 'Unknown'}`\<close>.\<close>

definition failed_status :: "render_data \<Rightarrow> string" where
  "failed_status d =
     [CHR 0xE2, CHR 0x9D, CHR 0x8C] @ '' Failed: ''
       @ (case data_error d of
            None \<Rightarrow> ''Unknown''
          | Some m \<Rightarrow> if m \<noteq> '''' then m else ''Unknown'')"

definition render_settle :: "string \<Rightarrow> outcome \<Rightarrow> app \<Rightarrow> app" where
  "render_settle API out s =
     (let s1 =
        (case out of
           Responded d \<Rightarrow>
             (let s2 = stopProgress (truthy (data_filename d)) s
              in case data_filename d of
                   None \<Rightarrow> s2\<lparr>status := failed_status d\<rparr>
                 | Some f \<Rightarrow>
                     if f \<noteq> '''' then
                       s2\<lparr>videoUrl := Some \<lparr>download = data_download_url d,
                                             preview = API @ ''/api/video/'' @ f,
                                             filename = f\<rparr>,
                          status := [CHR 0xE2, CHR 0x9C, CHR 0x85] @ '' Video ready!''\<rparr>
                     else s2\<lparr>status := failed_status d\<rparr>)
         | Threw msg \<Rightarrow>
             (stopProgress False s)
               \<lparr>status := [CHR 0xE2, CHR 0x9D, CHR 0x8C] @ '' Error: '' @ msg\<rparr>)
      in s1\<lparr>loading := False, rendering := False\<rparr>)"

definition succeeded :: "outcome \<Rightarrow> bool" where
  "succeeded out = (case out of Responded d \<Rightarrow> truthy (data_filename d) | Threw msg \<Rightarrow> False)"

subsection \<open>Reordering the scenes by dragging\<close>

text \<open>
  \<^verbatim>\<open>xs.splice(start, deleteCount, ...items)\<close> for a start that is not negative: both
  arguments are clamped to the array. An element of a JavaScript array may be
  \<^verbatim>\<open>undefined\<close>, which an index out of range reads too; \<open>None\<close> stands for it.
\<close>

definition array_splice :: "nat \<Rightarrow> nat \<Rightarrow> 'a list \<Rightarrow> 'a list \<Rightarrow> 'a list" where
  "array_splice start deleteCount items xs =
     (let actualStart = min start (length xs);
          actualDeleteCount = min deleteCount (length xs - actualStart)
      in take actualStart xs @ items @ drop (actualStart + actualDeleteCount) xs)"

text \<open>
  \<^verbatim>\<open>dragOver\<close> (line 470; \<^verbatim>\<open>unnamed/part_002\<close>, lines 166 to 175) on the pair of the
  states \<^verbatim>\<open>draggedIdx\<close> and \<^verbatim>\<open>scenes\<close>.
\<close>

definition dragOver :: "nat \<Rightarrow> nat option \<times> 'a option list \<Rightarrow> nat option \<times> 'a option list" where
  "dragOver idx st =
     (case st of (draggedIdx, scenes) \<Rightarrow>
        (case draggedIdx of
           None \<Rightarrow> st
         | Some d \<Rightarrow>
             if d = idx then st
             else
               (let upd = scenes;
                    dragged = (if d < length upd then upd ! d else None);
                    upd1 = array_splice d 1 [] upd;
                    upd2 = array_splice idx 0 [dragged] upd1
                in (Some idx, upd2))))"

subsection \<open>The older editor's progress steps\<close>

text \<open>
  In \<^verbatim>\<open>unnamed/part_002\<close> (lines 329 to 349) \<^verbatim>\<open>render\<close> sets the percentage to 0 and
  the label to \<^verbatim>\<open>'Initializing...'\<close>, and a \<^verbatim>\<open>setInterval\<close> callback steps through
  \<^verbatim>\<open>stgs\<close>. The state is the counter \<^verbatim>\<open>i\<close>, the percentage and the label.
\<close>

definition interval_start :: "nat \<times> int \<times> string" where
  "interval_start = (0, 0, ''Initializing...'')"

fun interval_tick :: "stg list \<Rightarrow> nat \<times> int \<times> string \<Rightarrow> nat \<times> int \<times> string" where
  "interval_tick tbl (i, shown_progress, shown_stage) =
     (if i < length tbl then (i + 1, stg_progress (tbl ! i), stg_stage (tbl ! i))
      else (i, shown_progress, shown_stage))"

subsection \<open>Evaluation\<close>

text \<open>
  \<open>interpolate\<close> once more, split into functions at the values it binds with
  \<^verbatim>\<open>const\<close>: the fraction, then the flag \<^verbatim>\<open>frac < 1\<close> and the rounded percentage. The
  equations that relate them to \<open>interpolate\<close> let a run be evaluated with each value
  computed once.
\<close>

definition interpolate_show ::
  "stage_entry list \<Rightarrow> nat \<Rightarrow> int \<Rightarrow> app \<Rightarrow> bool \<Rightarrow> jsnum \<Rightarrow> error + app" where
  "interpolate_show tbl stageIdx stageStart s running p =
     (if running then
        Inr (s\<lparr>progress := p, timer_count := Suc (timer_count s),
               timers := timers s
                 @ [Timer (Suc (timer_count s)) (uptime s + 80) (Interpolate stageIdx stageStart)],
               progressTimerRef := Some (Suc (timer_count s))\<rparr>)
      else
        Inr (s\<lparr>progress := p, stage := label (tbl ! Suc stageIdx),
               timer_count := Suc (timer_count s),
               timers := timers s
                 @ [Timer (Suc (timer_count s)) (uptime s + 100) (Tick (Suc stageIdx))],
               progressTimerRef := Some (Suc (timer_count s))\<rparr>))"

definition interpolate_frac ::
  "stage_entry list \<Rightarrow> nat \<Rightarrow> int \<Rightarrow> app \<Rightarrow> jsnum \<Rightarrow> error + app" where
  "interpolate_frac tbl stageIdx stageStart s fr =
     interpolate_show tbl stageIdx stageStart s (js_lt1 fr)
       (js_round (js_add (pct (tbl ! stageIdx))
          (js_scale (pct (tbl ! Suc stageIdx) - pct (tbl ! stageIdx)) fr)))"

subsection \<open>Invariants of a run\<close>

text \<open>
  The fraction \<^verbatim>\<open>frac\<close> that \<^verbatim>\<open>interpolate\<close> computes after \<open>elapsed\<close> milliseconds of a
  stage whose duration is not zero, and the percentage it then displays.
\<close>

definition frac_of :: "stage_entry \<Rightarrow> int \<Rightarrow> rat" where
  "frac_of current elapsed =
     min (rnd64 (double_of_int elapsed / double_of_int (ms current))) 1"

definition shown_at :: "stage_entry \<Rightarrow> stage_entry \<Rightarrow> rat \<Rightarrow> int" where
  "shown_at current next f =
     \<lfloor>rnd64 (double_of_int (pct current)
          + rnd64 (double_of_int (pct next - pct current) * f))
        + 1 / 2\<rfloor>"

definition shown :: "stage_entry \<Rightarrow> stage_entry \<Rightarrow> int \<Rightarrow> int" where
  "shown current next elapsed = shown_at current next (frac_of current elapsed)"



section \<open>Rounding to binary64\<close>

lemma ilog2_bounds:
  assumes "0 < x"
  shows "2 powi ilog2 x \<le> x \<and> x < 2 powi (ilog2 x + 1)"
proof -
  obtain p q where pq: "quotient_of x = (p, q)" by (cases "quotient_of x")
  then have q: "0 < q" by (rule quotient_of_denom_pos)
  have x: "x = of_int p / of_int q" using pq by (rule quotient_of_div)
  have p: "0 < p" using assms q x by (simp add: zero_less_divide_iff)
  define bp where "bp = nat (bitlen p - 1)"
  define bq where "bq = nat (bitlen q - 1)"
  have lenp: "bitlen p = int bp + 1" and lenq: "bitlen q = int bq + 1"
  proof -
    have "bitlen p \<noteq> 0" "bitlen q \<noteq> 0"
      using p q by (simp_all add: bitlen_eq_zero_iff)
    then have "0 < bitlen p" "0 < bitlen q"
      using bitlen_nonneg [of p] bitlen_nonneg [of q] by linarith+
    then show "bitlen p = int bp + 1" "bitlen q = int bq + 1"
      by (simp_all add: bp_def bq_def)
  qed
  have "2 ^ bp \<le> p" "p < 2 ^ Suc bp"
    using bitlen_bounds [OF p] by (simp_all add: lenp nat_add_distrib)
  then have P: "(2::rat) ^ bp \<le> of_int p" "(of_int p :: rat) < 2 ^ Suc bp"
    by (metis of_int_le_iff of_int_numeral of_int_power, metis of_int_less_iff of_int_numeral of_int_power)
  have "2 ^ bq \<le> q" "q < 2 ^ Suc bq"
    using bitlen_bounds [OF q] by (simp_all add: lenq nat_add_distrib)
  then have Q: "(2::rat) ^ bq \<le> of_int q" "(of_int q :: rat) < 2 ^ Suc bq"
    by (metis of_int_le_iff of_int_numeral of_int_power, metis of_int_less_iff of_int_numeral of_int_power)
  define k where "k = int bp - int bq"
  have k: "bitlen p - bitlen q = k" by (simp add: k_def lenp lenq)
  have qpos: "(0::rat) < of_int q" using q by simp
  have up: "x < 2 powi (k + 1)"
  proof -
    have "x * 2 ^ bq \<le> x * of_int q" using Q(1) assms by simp
    also have "\<dots> = of_int p" using x qpos by simp
    also have "\<dots> < 2 ^ Suc bp" by (rule P(2))
    finally have "x < 2 ^ Suc bp / 2 ^ bq" by (simp add: pos_less_divide_eq)
    also have "\<dots> = 2 powi (int (Suc bp) - int bq)"
    proof -
      have "(2::rat) powi (int (Suc bp) - int bq) = 2 powi int (Suc bp) / 2 powi int bq"
        by (rule power_int_diff) simp
      then show ?thesis by (simp only: power_int_of_nat)
    qed
    finally have "x < 2 powi (int (Suc bp) - int bq)" .
    moreover have "int (Suc bp) - int bq = k + 1" by (simp add: k_def)
    ultimately show ?thesis by (simp only:)
  qed
  have low: "2 powi (k - 1) < x"
  proof -
    have "2 ^ bp \<le> (of_int p :: rat)" by (rule P(1))
    also have "\<dots> = x * of_int q" using x qpos by simp
    also have "\<dots> < x * 2 ^ Suc bq" using Q(2) assms by simp
    finally have "2 ^ bp / 2 ^ Suc bq < x" by (simp add: pos_divide_less_eq)
    moreover have "(2::rat) ^ bp / 2 ^ Suc bq = 2 powi (int bp - int (Suc bq))"
    proof -
      have "(2::rat) powi (int bp - int (Suc bq)) = 2 powi int bp / 2 powi int (Suc bq)"
        by (rule power_int_diff) simp
      then show ?thesis by (simp only: power_int_of_nat)
    qed
    ultimately show ?thesis by (simp add: k_def algebra_simps)
  qed
  show ?thesis
  proof (cases "2 powi k \<le> x")
    case True
    then have "ilog2 x = k" using pq k by (simp add: ilog2_def)
    then show ?thesis using True up by simp
  next
    case False
    then have "ilog2 x = k - 1" using pq k by (simp add: ilog2_def)
    then show ?thesis using False low by simp
  qed
qed


lemma round_half_even_of_int [simp]: "round_half_even (of_int k) = k"
  by (simp add: round_half_even_def)





lemma rnd64_zero [simp]: "rnd64 0 = 0"
  by (simp add: rnd64_def)

lemma rnd64_pos_eq:
  "0 < x \<Longrightarrow> rnd64 x = of_int (round_half_even (x / 2 powi (ilog2 x - 52))) * 2 powi (ilog2 x - 52)"
  by (simp add: rnd64_def Let_def)





lemma rnd64_of_int:
  assumes "0 \<le> k" and "k < 2 ^ 53"
  shows "rnd64 (of_int k) = of_int k"
proof (cases "k = 0")
  case True
  then show ?thesis by simp
next
  case False
  then have pos: "(0::rat) < of_int k" using assms by simp
  define e where "e = ilog2 (of_int k)"
  have "2 powi e \<le> (of_int k :: rat)" using ilog2_bounds [OF pos] by (simp add: e_def)
  also have "(of_int k :: rat) < 2 powi 53" using assms(2)
    by (metis of_int_less_iff of_int_numeral of_int_power power_int_numeral)
  finally have "(2::rat) powi e < 2 powi 53" .
  have "e < 53"
  proof (rule ccontr)
    assume "\<not> e < 53"
    then have "(2::rat) powi 53 \<le> 2 powi e"
      by (intro power_int_increasing) simp_all
    then show False using \<open>(2::rat) powi e < 2 powi 53\<close> by linarith
  qed
  define n where "n = nat (52 - e)"
  have n: "52 - e = int n" using \<open>e < 53\<close> by (simp add: n_def)
  have u: "(2::rat) powi (e - 52) = inverse (2 ^ n)"
    using n by (metis minus_diff_eq power_int_minus power_int_of_nat)
  have "of_int k / (2::rat) powi (e - 52) = of_int (k * 2 ^ n)"
    by (simp add: u divide_inverse)
  then have "round_half_even (of_int k / 2 powi (e - 52)) = k * 2 ^ n"
    by (simp only: round_half_even_of_int)
  then have "rnd64 (of_int k) = of_int (k * 2 ^ n) * inverse (2 ^ n)"
    using pos by (simp add: rnd64_pos_eq e_def [symmetric] u)
  then show ?thesis by simp
qed

lemma rnd64_minus: "rnd64 (- x) = - rnd64 x"
  by (simp add: rnd64_def Let_def)

lemma rnd64_of_int_abs:
  assumes "\<bar>k\<bar> < 2 ^ 53"
  shows "rnd64 (of_int k) = of_int k"
proof (cases "0 \<le> k")
  case True
  then show ?thesis using assms by (intro rnd64_of_int) simp_all
next
  case False
  then have "rnd64 (of_int (- k)) = of_int (- k)"
    using assms by (intro rnd64_of_int) simp_all
  then have "rnd64 (- of_int k) = - of_int k" by simp
  then show ?thesis by (simp add: rnd64_minus)
qed

text \<open>An integer below \<open>2 ^ 53\<close> in magnitude needs no rounding; this also speeds evaluation up.\<close>

lemma double_of_int_code [code]:
  "double_of_int k = (if \<bar>k\<bar> < 2 ^ 53 then of_int k else rnd64 (of_int k))"
  by (simp add: double_of_int_def rnd64_of_int_abs)

lemma double_of_int_exact: "0 \<le> k \<Longrightarrow> k < 2 ^ 53 \<Longrightarrow> double_of_int k = of_int k"
  by (simp add: double_of_int_def rnd64_of_int)



lemma double_of_int_zero [simp]: "double_of_int 0 = 0"
  by (simp add: double_of_int_def)

section \<open>Equations for evaluation\<close>

lemma interpolate_code [code]:
  "interpolate tbl stageIdx stageStart s =
     (if Suc stageIdx < length tbl
      then interpolate_frac tbl stageIdx stageStart s
             (js_min1 (js_div (now s - stageStart) (ms (tbl ! stageIdx))))
      else Inl TypeError)"
  by (simp add: interpolate_def interpolate_frac_def interpolate_show_def Let_def entry_def
      setTimeout_def)

lemma run_callback_code [code]:
  "run_callback tbl (Tick i) s = tick tbl i s"
  "run_callback tbl (Interpolate i t0) s = interpolate tbl i t0 s"
  by (simp_all add: run_callback_def)

section \<open>The stage table\<close>

text \<open>
  C6 (amended). The program's stage table is not empty, its thresholds increase strictly
  and the first one is above 0; the last threshold is 96, below 100 (95 in the older
  editor's table): 100 is only ever set when the backend has answered.
\<close>

theorem STAGES_shape:
  "STAGES \<noteq> [] \<and> sorted_wrt (<) (map pct STAGES) \<and> 0 < pct (hd STAGES)
   \<and> pct (last STAGES) = 96
   \<and> stgs \<noteq> [] \<and> sorted_wrt (<) (map stg_progress stgs) \<and> 0 < stg_progress (hd stgs)
   \<and> stg_progress (last stgs) = 95"
  by (simp add: STAGES_def stgs_def)

text \<open>C6 as the specification states it fails: the last threshold is not 100.\<close>

theorem STAGES_last_not_100:
  "pct (last STAGES) \<noteq> 100 \<and> stg_progress (last stgs) \<noteq> 100"
  by (simp add: STAGES_def stgs_def)


lemma table_AB_ok: "stage_table_ok table_AB"
  by (simp add: stage_table_ok_def table_AB_def)







section \<open>Stopping\<close>

text \<open>
  C3. In every state, whatever stage the timeline has reached, \<open>stopProgress True\<close>
  leaves the percentage at 100 and the label at the completion label; so it does right
  after \<open>startProgressAnimation\<close>, with no time elapsed.
\<close>

theorem stopProgress_success:
  "progress (stopProgress True s) = Fin 100 \<and> stage (stopProgress True s) = complete_label
   \<and> (case startProgressAnimation STAGES s of
        Inl x \<Rightarrow> False
      | Inr s' \<Rightarrow> now s' = now s \<and> progress (stopProgress True s') = Fin 100
                 \<and> stage (stopProgress True s') = complete_label)"
  by (simp add: stopProgress_def startProgressAnimation_def entry_def STAGES_def
      setTimeout_def Let_def split: option.splits)

text \<open>
  C4. In every state \<open>stopProgress False\<close> leaves the percentage at 0 and the label
  empty; and when the render request fails, by an answer without a file name or by an
  exception, \<open>render_settle\<close> calls it and then resets \<open>rendering\<close> and \<open>loading\<close>, the
  flags that say a run is active.
\<close>

theorem stopProgress_failure:
  "progress (stopProgress False s) = Fin 0 \<and> stage (stopProgress False s) = ''''
   \<and> (\<not> succeeded out \<longrightarrow>
        progress (render_settle API out s) = Fin 0 \<and> stage (render_settle API out s) = ''''
        \<and> \<not> rendering (render_settle API out s) \<and> \<not> loading (render_settle API out s))"
  by (simp add: stopProgress_def render_settle_def succeeded_def truthy_def Let_def
      split: option.splits outcome.splits)

theorem stopProgress_failure_witness:
  "\<not> succeeded (Threw ''Failed to fetch'')
   \<and> progress (render_settle ''http://localhost:5001'' (Threw ''Failed to fetch'')
        (init\<lparr>progress := Fin 38, rendering := True, loading := True\<rparr>)) = Fin 0
   \<and> \<not> rendering (render_settle ''http://localhost:5001'' (Threw ''Failed to fetch'')
        (init\<lparr>progress := Fin 38, rendering := True, loading := True\<rparr>))"
proof -
  have failed: "\<not> succeeded (Threw ''Failed to fetch'')"
    by (simp add: succeeded_def)
  from stopProgress_failure
    [of "init\<lparr>progress := Fin 38, rendering := True, loading := True\<rparr>"
        "Threw ''Failed to fetch''" "''http://localhost:5001''"]
  show ?thesis using failed by blast
qed

section \<open>One pending timeout\<close>














section \<open>The arithmetic of a stage\<close>

lemma interpolated_value:
  "ms c \<noteq> 0 \<Longrightarrow>
   js_round (js_add (pct c) (js_scale (pct n - pct c) (js_min1 (js_div e (ms c)))))
     = Fin (of_int (shown c n e))"
  by (simp add: js_div_def shown_def shown_at_def frac_of_def)

lemma frac_lt1: "ms c \<noteq> 0 \<Longrightarrow> js_lt1 (js_min1 (js_div e (ms c))) \<longleftrightarrow> frac_of c e < 1"
  by (simp add: js_div_def frac_of_def)


lemma frac_of_start [simp]: "frac_of c 0 = 0"
  by (simp add: frac_of_def)












text \<open>What one run of \<open>interpolate\<close> does, for a stage of the table whose duration is not zero.\<close>

lemma interpolate_running:
  assumes "Suc i < length tbl" and "ms (tbl ! i) \<noteq> 0"
    and "frac_of (tbl ! i) (now s - t0) < 1"
  shows "interpolate tbl i t0 s =
    Inr (s\<lparr>progress := Fin (of_int (shown (tbl ! i) (tbl ! Suc i) (now s - t0))),
           timer_count := Suc (timer_count s),
           timers := timers s @ [Timer (Suc (timer_count s)) (uptime s + 80) (Interpolate i t0)],
           progressTimerRef := Some (Suc (timer_count s))\<rparr>)"
  using assms
  by (simp add: interpolate_def entry_def Let_def interpolated_value frac_lt1 setTimeout_def)

lemma interpolate_finished:
  assumes "Suc i < length tbl" and "ms (tbl ! i) \<noteq> 0"
    and "\<not> frac_of (tbl ! i) (now s - t0) < 1"
  shows "interpolate tbl i t0 s =
    Inr (s\<lparr>progress := Fin (of_int (shown (tbl ! i) (tbl ! Suc i) (now s - t0))),
           stage := label (tbl ! Suc i),
           timer_count := Suc (timer_count s),
           timers := timers s @ [Timer (Suc (timer_count s)) (uptime s + 100) (Tick (Suc i))],
           progressTimerRef := Some (Suc (timer_count s))\<rparr>)"
  using assms
  by (simp add: interpolate_def entry_def Let_def interpolated_value frac_lt1 setTimeout_def)







section \<open>A single run\<close>









section \<open>A table of one entry\<close>

lemma single_entry_step:
  assumes "\<forall>t \<in> set (timers s). callback t = Tick 0"
  shows "\<exists>s'. step [e] ev s = Inr s' \<and> progress s' = progress s \<and> stage s' = stage s
           \<and> (\<forall>t \<in> set (timers s'). callback t = Tick 0)"
proof (cases ev)
  case (Advance d)
  then show ?thesis using assms by (simp add: step_def)
next
  case (Fire h)
  show ?thesis
  proof (cases "find (\<lambda>t. handle t = h) (timers s)")
    case None
    then show ?thesis using Fire assms by (simp add: step_def fire_def)
  next
    case (Some t)
    then have "t \<in> set (timers s)" by (auto simp: find_Some_iff)
    then have "callback t = Tick 0" using assms by simp
    then show ?thesis
      using Fire Some assms by (simp add: step_def fire_def run_callback_def tick_def)
  qed
qed

lemma single_entry_run:
  "\<forall>t \<in> set (timers s). callback t = Tick 0 \<Longrightarrow>
   \<exists>ss. run [e] es s = Inr ss \<and> (\<forall>s' \<in> set ss. progress s' = progress s \<and> stage s' = stage s)"
proof (induction es arbitrary: s)
  case Nil
  then show ?case by simp
next
  case (Cons ev es)
  from single_entry_step [OF Cons.prems, of e ev] obtain s2 where
    st: "step [e] ev s = Inr s2" and same: "progress s2 = progress s" "stage s2 = stage s"
    and ticks: "\<forall>t \<in> set (timers s2). callback t = Tick 0"
    by blast
  from Cons.IH [OF ticks] obtain ss where
    "run [e] es s2 = Inr ss" "\<forall>s' \<in> set ss. progress s' = progress s2 \<and> stage s' = stage s2"
    by blast
  then show ?case using st same by simp
qed

text \<open>
  C9. With a table of exactly one entry, whatever its fields, \<open>startProgressAnimation\<close>
  does not throw, and under every schedule no callback throws: the run stays at 0 with
  the label of the single entry.
\<close>

theorem single_entry_never_throws:
  assumes "timers s = []"
  shows "\<exists>s1. startProgressAnimation [e] s = Inr s1
    \<and> (\<exists>ss. run [e] es s1 = Inr ss
          \<and> (\<forall>s' \<in> set ss. progress s' = Fin 0 \<and> stage s' = label e))"
proof -
  let ?s1 = "s\<lparr>renderStartRef := Some (now s), progress := Fin 0, stage := label e,
               timer_count := Suc (timer_count s),
               timers := [Timer (Suc (timer_count s)) (uptime s + 200) (Tick 0)],
               progressTimerRef := Some (Suc (timer_count s))\<rparr>"
  have st: "startProgressAnimation [e] s = Inr ?s1"
    using assms by (simp add: startProgressAnimation_def entry_def setTimeout_def Let_def)
  have "\<forall>t \<in> set (timers ?s1). callback t = Tick 0" by simp
  from single_entry_run [OF this, of e es] show ?thesis
    using st by simp
qed

theorem single_entry_never_throws_witness:
  "timers init = []
   \<and> (\<exists>s1. startProgressAnimation [\<lparr>pct = 50, label = ''Only'', ms = 0\<rparr>] init = Inr s1
        \<and> (\<exists>ss. run [\<lparr>pct = 50, label = ''Only'', ms = 0\<rparr>] [Advance 200, Fire 1] s1 = Inr ss
              \<and> (\<forall>s' \<in> set ss. progress s' = Fin 0 \<and> stage s' = ''Only'')))"
proof -
  have idle: "timers init = []" by (simp add: init_def)
  from single_entry_never_throws
    [OF idle, of "\<lparr>pct = 50, label = ''Only'', ms = 0\<rparr>" "[Advance 200, Fire 1]"]
  show ?thesis using idle by simp
qed

section \<open>Starting twice\<close>




section \<open>The timeline of the two-entry table\<close>

lemma timeline_AB_views:
  "timeline table_AB [0, 199, 200, 500, 1000, 1239, 1240, 2000]
     = Some [(Fin 0, ''A'', [Tick 0]),
             (Fin 0, ''A'', [Tick 0]),
             (Fin 10, ''A'', [Interpolate 0 200]),
             (Fin 32, ''A'', [Interpolate 0 200]),
             (Fin 82, ''A'', [Interpolate 0 200]),
             (Fin 96, ''A'', [Interpolate 0 200]),
             (Fin 100, ''B'', [Tick 1]),
             (Fin 100, ''B'', [])]"
  by code_simp

text \<open>
  C5 (amended). With the two-entry table and every callback run when it is due, the
  driver shows 0 with the label A until its first tick 200 ms after the start; it then
  interpolates from 10 to 100 over the 1000 ms of the first entry, every 80 ms: 32 with
  the label A at 500 ms, 82 with the label A at 1000 ms; at 1240 ms it shows 100 and
  switches to the label B, and at 2000 ms it still shows 100, with no timeout pending.
  Each run of \<open>interpolate\<close> computes \<open>f = min (elapsed / current.ms) 1\<close> and displays
  \<open>current.pct + (next.pct - current.pct) * f\<close>, rounded to a whole number, where
  \<open>current\<close> is the entry of the stage and \<open>next\<close> the entry after it; the quotient, the
  product and the sum are each rounded to binary64.
\<close>

theorem timeline_AB:
  "timeline table_AB [0, 199, 200, 500, 1000, 1239, 1240, 2000]
     = Some [(Fin 0, ''A'', [Tick 0]),
             (Fin 0, ''A'', [Tick 0]),
             (Fin 10, ''A'', [Interpolate 0 200]),
             (Fin 32, ''A'', [Interpolate 0 200]),
             (Fin 82, ''A'', [Interpolate 0 200]),
             (Fin 96, ''A'', [Interpolate 0 200]),
             (Fin 100, ''B'', [Tick 1]),
             (Fin 100, ''B'', [])]
   \<and> (Suc i < length tbl \<and> ms (tbl ! i) \<noteq> 0 \<longrightarrow>
        map_sum id progress (interpolate tbl i t0 s)
          = Inr (Fin (of_int
              \<lfloor>rnd64 (double_of_int (pct (tbl ! i))
                  + rnd64 (double_of_int (pct (tbl ! Suc i) - pct (tbl ! i))
                      * min (rnd64 (double_of_int (now s - t0)
                                      / double_of_int (ms (tbl ! i)))) 1))
                + 1 / 2\<rfloor>)))"
proof -
  have "map_sum id progress (interpolate tbl i t0 s)
          = Inr (Fin (of_int (shown (tbl ! i) (tbl ! Suc i) (now s - t0))))"
    if i: "Suc i < length tbl" and nz: "ms (tbl ! i) \<noteq> 0"
  proof (cases "frac_of (tbl ! i) (now s - t0) < 1")
    case True
    with i nz show ?thesis by (simp add: interpolate_running)
  next
    case False
    with i nz show ?thesis by (simp add: interpolate_finished)
  qed
  then show ?thesis
    using timeline_AB_views by (simp add: shown_def shown_at_def frac_of_def)
qed

text \<open>
  An instance in which the rounding of the intermediate results decides: 560 ms into a
  stage of 800 ms from 1 to 86 the exact value is 60.5, the computed one is just below,
  and the driver shows 60.
\<close>

theorem timeline_AB_witness:
  "Suc 0 < length [\<lparr>pct = 1, label = ''A'', ms = 800\<rparr>, \<lparr>pct = 86, label = ''B'', ms = 1000\<rparr>]
   \<and> ms ([\<lparr>pct = 1, label = ''A'', ms = 800\<rparr>, \<lparr>pct = 86, label = ''B'', ms = 1000\<rparr>] ! 0) \<noteq> 0
   \<and> map_sum id progress
        (interpolate [\<lparr>pct = 1, label = ''A'', ms = 800\<rparr>, \<lparr>pct = 86, label = ''B'', ms = 1000\<rparr>]
           0 0 (init\<lparr>now := 560\<rparr>))
       = Inr (Fin 60)"
proof -
  let ?tbl = "[\<lparr>pct = 1, label = ''A'', ms = 800\<rparr>, \<lparr>pct = 86, label = ''B'', ms = 1000\<rparr>]"
  have h: "Suc 0 < length ?tbl \<and> ms (?tbl ! 0) \<noteq> 0" by simp
  have v: "\<lfloor>rnd64 (double_of_int 1 + rnd64 (double_of_int (86 - 1)
             * min (rnd64 (double_of_int (560 - 0) / double_of_int 800)) 1)) + 1 / 2\<rfloor> = 60"
    by code_simp
  from timeline_AB [of 0 ?tbl 0 "init\<lparr>now := 560\<rparr>"] h
  have "map_sum id progress (interpolate ?tbl 0 0 (init\<lparr>now := 560\<rparr>))
          = Inr (Fin (of_int
              \<lfloor>rnd64 (double_of_int 1 + rnd64 (double_of_int (86 - 1)
                 * min (rnd64 (double_of_int (560 - 0) / double_of_int 800)) 1)) + 1 / 2\<rfloor>))"
    by (simp add: init_def)
  then show ?thesis using h v by simp
qed

text \<open>
  C5 as the specification states it fails: at 500 ms the percentage is 32, not about 5;
  at 1000 ms it is 82 with the label still A, not 10 with a switch to B; at 2000 ms it
  is 100, reached without \<open>stopProgress\<close>.
\<close>

theorem timeline_AB_not_as_specified:
  "map_option (\<lambda>vs. [fst (vs ! 3), fst (vs ! 4), fst (vs ! 7)])
     (timeline table_AB [0, 199, 200, 500, 1000, 1239, 1240, 2000])
     = Some [Fin 32, Fin 82, Fin 100]
   \<and> map_option (\<lambda>vs. fst (snd (vs ! 4)))
     (timeline table_AB [0, 199, 200, 500, 1000, 1239, 1240, 2000]) = Some ''A''"
  by (simp add: timeline_AB_views)

section \<open>Reordering the scenes by dragging\<close>

lemma array_splice_delete_one:
  "d < length xs \<Longrightarrow> array_splice d 1 [] xs = take d xs @ drop (Suc d) xs"
  by (simp add: array_splice_def Let_def)

lemma array_splice_insert_one:
  "i \<le> length xs \<Longrightarrow> array_splice i 0 [x] xs = take i xs @ [x] @ drop i xs"
  by (simp add: array_splice_def Let_def)

lemma mset_insert_at: "mset (take i xs @ [x] @ drop i xs) = add_mset x (mset xs)"
proof -
  have "mset (take i xs) + mset (drop i xs) = mset xs"
    by (metis append_take_drop_id mset_append)
  then show ?thesis by simp
qed

lemma mset_delete_at:
  "d < length xs \<Longrightarrow> add_mset (xs ! d) (mset (take d xs @ drop (Suc d) xs)) = mset xs"
proof -
  assume "d < length xs"
  then have "xs = take d xs @ xs ! d # drop (Suc d) xs"
    by (rule id_take_nth_drop)
  then have "mset xs = mset (take d xs @ xs ! d # drop (Suc d) xs)"
    by simp
  then show ?thesis by simp
qed

text \<open>
  C10. For a dragged index and a target index that are both in range and differ,
  \<open>dragOver\<close> yields a permutation of the scenes of the same length: the dragged scene
  stands at the target index, and the other scenes keep their order. The dragged index
  becomes the target index.
\<close>

theorem dragOver_permutes:
  assumes "d < length scenes" and "idx < length scenes" and "d \<noteq> idx"
  shows "\<exists>upd. dragOver idx (Some d, scenes) = (Some idx, upd)
           \<and> mset upd = mset scenes \<and> length upd = length scenes
           \<and> upd ! idx = scenes ! d
           \<and> take idx upd @ drop (Suc idx) upd = take d scenes @ drop (Suc d) scenes"
proof -
  define rest where "rest = take d scenes @ drop (Suc d) scenes"
  define upd where "upd = take idx rest @ [scenes ! d] @ drop idx rest"
  have len: "Suc (length rest) = length scenes"
    using assms(1) by (simp add: rest_def)
  have i: "idx \<le> length rest"
    using assms(2) len by linarith
  have s1: "array_splice d 1 [] scenes = rest"
    unfolding rest_def using assms(1) by (rule array_splice_delete_one)
  have s2: "array_splice idx 0 [scenes ! d] rest = upd"
    unfolding upd_def using i by (rule array_splice_insert_one)
  have run: "dragOver idx (Some d, scenes) = (Some idx, upd)"
    using assms(1,3) s1 s2 by (simp add: dragOver_def Let_def)
  have "mset upd = add_mset (scenes ! d) (mset rest)"
    unfolding upd_def by (rule mset_insert_at)
  also have "\<dots> = mset scenes"
    unfolding rest_def using assms(1) by (rule mset_delete_at)
  finally have m: "mset upd = mset scenes" .
  have l: "length upd = length scenes"
    using i len by (simp add: upd_def)
  have n: "upd ! idx = scenes ! d"
    using i by (simp add: upd_def nth_append)
  have t: "take idx upd @ drop (Suc idx) upd = rest"
    using i by (simp add: upd_def)
  show ?thesis
    using run m l n t by (simp add: rest_def)
qed

theorem dragOver_permutes_witness:
  "(2::nat) < length [Some ''a'', Some ''b'', Some ''c''] \<and> (2::nat) \<noteq> 0
   \<and> dragOver 0 (Some 2, [Some ''a'', Some ''b'', Some ''c''])
       = (Some 0, [Some ''c'', Some ''a'', Some ''b''])
   \<and> (\<exists>upd. dragOver 0 (Some 2, [Some ''a'', Some ''b'', Some ''c'']) = (Some 0, upd)
         \<and> mset upd = mset [Some ''a'', Some ''b'', Some ''c''])"
proof -
  have a: "(2::nat) < length [Some ''a'', Some ''b'', Some ''c'']"
    and b: "(0::nat) < length [Some ''a'', Some ''b'', Some ''c'']"
    and c: "(2::nat) \<noteq> 0"
    by simp_all
  have "dragOver 0 (Some 2, [Some ''a'', Some ''b'', Some ''c''])
          = (Some 0, [Some ''c'', Some ''a'', Some ''b''])"
    by (simp add: dragOver_def array_splice_def)
  moreover from dragOver_permutes [OF a b c]
  have "\<exists>upd. dragOver 0 (Some 2, [Some ''a'', Some ''b'', Some ''c'']) = (Some 0, upd)
         \<and> mset upd = mset [Some ''a'', Some ''b'', Some ''c'']"
    by blast
  ultimately show ?thesis using a c by blast
qed

section \<open>The older editor's progress steps\<close>

lemma interval_tick_inv:
  "\<exists>i p st. (interval_tick tbl ^^ k) interval_start = (i, p, st) \<and> i \<le> length tbl
     \<and> (i = 0 \<longrightarrow> p = 0) \<and> (0 < i \<longrightarrow> p = stg_progress (tbl ! (i - 1)))"
proof (induction k)
  case 0
  then show ?case by (simp add: interval_start_def)
next
  case (Suc k)
  then obtain i p st where
    "(interval_tick tbl ^^ k) interval_start = (i, p, st)" "i \<le> length tbl"
    "i = 0 \<longrightarrow> p = 0" "0 < i \<longrightarrow> p = stg_progress (tbl ! (i - 1))"
    by blast
  then show ?case by auto
qed

text \<open>
  The percentages the interval callback sets never decrease either, for a table with
  increasing thresholds that are not negative; the program's table is one.
\<close>

lemma interval_tick_monotone:
  assumes "sorted (map stg_progress tbl)" and "list_all (\<lambda>e. 0 \<le> stg_progress e) tbl"
  shows "fst (snd ((interval_tick tbl ^^ k) interval_start))
           \<le> fst (snd ((interval_tick tbl ^^ Suc k) interval_start))"
proof -
  from interval_tick_inv [where tbl = tbl and k = k] obtain i p st where
    eq: "(interval_tick tbl ^^ k) interval_start = (i, p, st)" and le: "i \<le> length tbl"
    and z: "i = 0 \<longrightarrow> p = 0" and n: "0 < i \<longrightarrow> p = stg_progress (tbl ! (i - 1))"
    by blast
  show ?thesis
  proof (cases "i < length tbl")
    case False
    then show ?thesis using eq by simp
  next
    case True
    have "p \<le> stg_progress (tbl ! i)"
    proof (cases "i = 0")
      case True
      then show ?thesis using z assms(2) \<open>i < length tbl\<close> by (simp add: list_all_length)
    next
      case False
      then have "map stg_progress tbl ! (i - 1) \<le> map stg_progress tbl ! i"
        using assms(1) True by (intro sorted_nth_mono) simp_all
      then show ?thesis using n False True by simp
    qed
    then show ?thesis using eq True by simp
  qed
qed

lemma stgs_steps:
  "map (\<lambda>k. fst (snd ((interval_tick stgs ^^ k) interval_start))) [0, 1, 2, 3, 4, 5, 6, 7]
     = [0, 10, 25, 40, 60, 80, 95, 95]"
  by code_simp

end
